theory Spec2Isabelle
  imports Complex_Main "HOL-Library.Multiset"
begin

section \<open>Data model of the mesh overlay (src/network/mesh.py)\<close>

text \<open>
  Peer addresses and message texts are Python \<open>str\<close>, payloads are \<open>bytes\<close>.
  Timestamps are the values of \<open>time.time()\<close>; the code only subtracts and compares
  them, so they are taken as reals. Counters are Python's unbounded integers.
\<close>

type_synonym peer_id = string
type_synonym bytes = "nat list"

datatype error = RuntimeError string | ConnectionError | ZstdError | CleanupError

text \<open>The dataclass \<open>PeerState\<close>.\<close>

record PeerState =
  last_seen :: real
  failed_attempts :: int
  is_active :: bool

text \<open>
  An entry of \<open>message_buffer\<close>: the dict with the keys \<open>"peer"\<close>, \<open>"message"\<close>,
  \<open>"attempts"\<close> and \<open>"timestamp"\<close> built by \<open>broadcast_message\<close>.
\<close>

record BufferedMessage =
  peer :: peer_id
  message :: bytes
  attempts :: int
  timestamp :: real

text \<open>
  The fields of \<open>MeshNetwork\<close>. The dict \<open>peers\<close> is an association list in
  insertion order, which is the order Python iterates it in. \<open>http_runner\<close> tells
  whether \<open>_http_runner\<close> holds a runner or is \<open>None\<close>. \<open>max_retry_ports\<close> is a
  count, the argument of \<open>range\<close>.
\<close>

record MeshNetwork =
  base_port :: int
  max_retry_ports :: nat
  port :: "int option"
  peers :: "(peer_id \<times> PeerState) list"
  message_buffer :: "BufferedMessage list"
  is_running :: bool
  known_messages :: "int set"
  retry_interval :: int
  peer_timeout :: int
  http_runner :: bool

text \<open>\<open>MeshNetwork.__init__\<close>.\<close>

definition init_mesh :: "int \<Rightarrow> nat \<Rightarrow> MeshNetwork" where
  "init_mesh bp n =
     \<lparr>base_port = bp, max_retry_ports = n, port = None, peers = [],
      message_buffer = [], is_running = False, known_messages = {},
      retry_interval = 30, peer_timeout = 300, http_runner = False\<rparr>"

text \<open>
  What the network does is not part of the program: a connection attempt to a peer with
  a payload (\<open>_peer_connection\<close> followed by \<open>_send_message\<close>) either returns or
  raises, and the model takes that outcome from a parameter. Within one pass over the
  dict every peer is visited once, so the outcome is a function of the peer.
\<close>

type_synonym send_oracle = "peer_id \<Rightarrow> bytes \<Rightarrow> error + unit"

section \<open>Compression\<close>

text \<open>
  The zstandard library and the UTF-8 codec are outside the repository; they are
  parameters. \<open>encode\<close> is \<open>str.encode()\<close> on the texts the program handles,
  \<open>decode\<close> is the strict \<open>bytes.decode()\<close>, which may raise, and
  \<open>decode_replace\<close> is \<open>bytes.decode(errors='replace')\<close>, which never does.
\<close>

record codec =
  encode :: "string \<Rightarrow> bytes"
  decode :: "bytes \<Rightarrow> error + string"
  decode_replace :: "bytes \<Rightarrow> string"
  zstd_compress :: "bytes \<Rightarrow> error + bytes"
  zstd_decompress :: "bytes \<Rightarrow> error + bytes"

text \<open>\<open>_compress_message\<close>: on any exception fall back to the uncompressed bytes.\<close>

definition compress_message :: "codec \<Rightarrow> string \<Rightarrow> bytes" where
  "compress_message c text =
     (case zstd_compress c (encode c text) of
        Inr z \<Rightarrow> z
      | Inl e \<Rightarrow> encode c text)"

text \<open>
  \<open>_decompress_message\<close>: the \<open>try\<close> block covers both the decompression and the strict
  decoding of its result; on any exception the raw input is decoded with replacement.
\<close>

definition decompress_message :: "codec \<Rightarrow> bytes \<Rightarrow> string" where
  "decompress_message c data =
     (case zstd_decompress c data of
        Inl e \<Rightarrow> decode_replace c data
      | Inr raw \<Rightarrow>
          (case decode c raw of
             Inl e \<Rightarrow> decode_replace c data
           | Inr text \<Rightarrow> text))"

section \<open>Message dissemination\<close>

text \<open>
  The loop of \<open>broadcast_message\<close> over \<open>self.peers.items()\<close>. It returns the updated
  peer table, the list \<open>failed_peers\<close>, and the connection attempts it made, in order.
\<close>

definition note_failure :: "PeerState \<Rightarrow> PeerState" where
  "note_failure state =
     (let state1 = state\<lparr>failed_attempts := failed_attempts state + 1\<rparr>
      in if failed_attempts state1 \<ge> 3 then state1\<lparr>is_active := False\<rparr> else state1)"

fun broadcast_peers ::
  "send_oracle \<Rightarrow> bytes \<Rightarrow> (peer_id \<times> PeerState) list \<Rightarrow>
     (peer_id \<times> PeerState) list \<times> (peer_id \<times> bytes) list \<times> (peer_id \<times> bytes) list" where
  "broadcast_peers net compressed [] = ([], [], [])"
| "broadcast_peers net compressed ((p, state) # rest) =
     (case broadcast_peers net compressed rest of (rest', failed, sent) \<Rightarrow>
        if \<not> is_active state then ((p, state) # rest', failed, sent)
        else (case net p compressed of
                Inr u \<Rightarrow> ((p, state) # rest', failed, (p, compressed) # sent)
              | Inl e \<Rightarrow> ((p, note_failure state) # rest',
                          (p, compressed) # failed, (p, compressed) # sent)))"

text \<open>
  \<open>broadcast_message\<close>. \<open>fp\<close> is Python's \<open>hash\<close> on strings and \<open>clock p\<close> the value
  of \<open>time.time()\<close> when the entry for peer \<open>p\<close> is appended to the buffer. The second
  component of the result lists the connection attempts of this call.
\<close>

definition broadcast_message ::
  "(string \<Rightarrow> int) \<Rightarrow> codec \<Rightarrow> send_oracle \<Rightarrow> (peer_id \<Rightarrow> real) \<Rightarrow> string \<Rightarrow>
     MeshNetwork \<Rightarrow> MeshNetwork \<times> (peer_id \<times> bytes) list" where
  "broadcast_message fp c net clock text s =
     (let msg_hash = fp text in
      if msg_hash \<in> known_messages s then (s, [])
      else
        let s1 = s\<lparr>known_messages := insert msg_hash (known_messages s)\<rparr>;
            compressed = compress_message c text
        in (case broadcast_peers net compressed (peers s1) of (ps, failed_peers, sent) \<Rightarrow>
              (s1\<lparr>peers := ps,
                  message_buffer := message_buffer s1 @
                    map (\<lambda>(p, msg). \<lparr>peer = p, message = msg, attempts = 0,
                                     timestamp = clock p\<rparr>) failed_peers\<rparr>,
               sent)))"

section \<open>Reliability loops\<close>

text \<open>
  One iteration of the \<open>while self.is_running\<close> loop of \<open>_peer_maintenance\<close>: the
  stale peers are filtered out, then every remaining peer goes through the two \<open>if\<close>
  statements of the decay.
\<close>

definition decay :: "PeerState \<Rightarrow> PeerState" where
  "decay state =
     (let state1 = (if \<not> is_active state \<and> failed_attempts state > 0
                    then state\<lparr>failed_attempts := max 0 (failed_attempts state - 1)\<rparr>
                    else state)
      in if failed_attempts state1 = 0 then state1\<lparr>is_active := True\<rparr> else state1)"

definition peer_maintenance :: "real \<Rightarrow> MeshNetwork \<Rightarrow> MeshNetwork" where
  "peer_maintenance current_time s =
     s\<lparr>peers := map (\<lambda>(p, state). (p, decay state))
                  (filter (\<lambda>(p, state). current_time - last_seen state < real_of_int (peer_timeout s))
                     (peers s))\<rparr>"


text \<open>
  One iteration of the \<open>while\<close> loop of \<open>_heartbeat\<close>. \<open>clock p\<close> is the value of
  \<open>time.time()\<close> read after the frame to \<open>p\<close> has been sent.
\<close>

definition PING :: bytes where
  "PING = [80, 73, 78, 71]"

fun heartbeat_peers ::
  "send_oracle \<Rightarrow> (peer_id \<Rightarrow> real) \<Rightarrow> (peer_id \<times> PeerState) list \<Rightarrow>
     (peer_id \<times> PeerState) list \<times> (peer_id \<times> bytes) list" where
  "heartbeat_peers net clock [] = ([], [])"
| "heartbeat_peers net clock ((p, state) # rest) =
     (case heartbeat_peers net clock rest of (rest', sent) \<Rightarrow>
        if \<not> is_active state then ((p, state) # rest', sent)
        else (case net p PING of
                Inr u \<Rightarrow> ((p, state\<lparr>last_seen := clock p, failed_attempts := 0\<rparr>) # rest',
                          (p, PING) # sent)
              | Inl e \<Rightarrow> ((p, note_failure state) # rest', (p, PING) # sent)))"

definition heartbeat ::
  "send_oracle \<Rightarrow> (peer_id \<Rightarrow> real) \<Rightarrow> MeshNetwork \<Rightarrow> MeshNetwork \<times> (peer_id \<times> bytes) list" where
  "heartbeat net clock s =
     (case heartbeat_peers net clock (peers s) of (ps, sent) \<Rightarrow> (s\<lparr>peers := ps\<rparr>, sent))"

text \<open>
  One iteration of the \<open>while\<close> loop of \<open>_handle_message_buffer\<close>. The \<open>for\<close> loop
  walks a copy of the list while the list itself is changed: \<open>remove\<close> deletes the
  first entry equal to \<open>msg\<close>, and \<open>msg["attempts"] += 1\<close> changes the entry in
  place. \<open>i\<close> is the position in the live list of the entry the copy yields next
  (a removal takes out an entry at or before that position, so the next entry moves to
  \<open>i\<close>). The same peer can be tried several times in one pass, so here the outcome of
  a connection attempt is a function of its ordinal \<open>k\<close> in the pass. The second
  component of the result lists the entries for which a delivery was attempted, as they
  were when it was attempted.
\<close>

type_synonym attempt_oracle = "nat \<Rightarrow> peer_id \<Rightarrow> bytes \<Rightarrow> error + unit"

function handle_buffer_loop ::
  "real \<Rightarrow> attempt_oracle \<Rightarrow> nat \<Rightarrow> nat \<Rightarrow> BufferedMessage list \<Rightarrow>
     BufferedMessage list \<times> BufferedMessage list" where
  "handle_buffer_loop current_time net k i buf =
     (if length buf \<le> i then (buf, [])
      else
        let msg = buf ! i in
        if attempts msg < 5 then
          (case net k (peer msg) (message msg) of
             Inr u \<Rightarrow>
               apsnd ((#) msg) (handle_buffer_loop current_time net (Suc k) i (remove1 msg buf))
           | Inl e \<Rightarrow>
               apsnd ((#) msg)
                 (handle_buffer_loop current_time net (Suc k) (Suc i)
                    (buf[i := msg\<lparr>attempts := attempts msg + 1\<rparr>])))
        else if current_time - timestamp msg > 3600 then
          handle_buffer_loop current_time net k i (remove1 msg buf)
        else handle_buffer_loop current_time net k (Suc i) buf)"
  by pat_completeness auto
termination
proof (relation "measure (\<lambda>(current_time, net, k, i, buf). length buf - i)")
  show "wf (measure (\<lambda>(current_time, net, k, i, buf). length buf - i))"
    by simp
qed (auto simp: length_remove1)

declare handle_buffer_loop.simps [simp del]

definition handle_message_buffer ::
  "real \<Rightarrow> attempt_oracle \<Rightarrow> MeshNetwork \<Rightarrow> MeshNetwork \<times> BufferedMessage list" where
  "handle_message_buffer current_time net s =
     (case handle_buffer_loop current_time net 0 0 (message_buffer s) of
        (buf, tried) \<Rightarrow> (s\<lparr>message_buffer := buf\<rparr>, tried))"

text \<open>
  The rule of the design for one pass of buffered delivery, entry by entry: an entry
  with fewer than five attempts is tried, removed on success and kept with one more
  attempt on failure; an entry with five or more attempts is not tried, and is dropped
  once it is older than the retention window of one hour.
\<close>

fun buffer_spec ::
  "real \<Rightarrow> attempt_oracle \<Rightarrow> nat \<Rightarrow> BufferedMessage list \<Rightarrow>
     BufferedMessage list \<times> BufferedMessage list" where
  "buffer_spec current_time net k [] = ([], [])"
| "buffer_spec current_time net k (msg # rest) =
     (if attempts msg < 5 then
        (case net k (peer msg) (message msg) of
           Inr u \<Rightarrow> apsnd ((#) msg) (buffer_spec current_time net (Suc k) rest)
         | Inl e \<Rightarrow>
             map_prod ((#) (msg\<lparr>attempts := attempts msg + 1\<rparr>)) ((#) msg)
               (buffer_spec current_time net (Suc k) rest))
      else if current_time - timestamp msg > 3600 then buffer_spec current_time net k rest
      else apfst ((#) msg) (buffer_spec current_time net k rest))"

section \<open>Startup and shutdown\<close>

text \<open>
  The calls into aiohttp, the DHT node and the secure-memory helper either return or
  raise; their outcomes are parameters. \<open>verify_port_active\<close> is the result of
  \<open>_verify_port_active\<close>, which polls the DHT against the wall clock and catches every
  exception itself.
\<close>

record env =
  http_setup :: "error + unit"
  runner_cleanup :: "error + unit"
  dht_listen :: "int \<Rightarrow> error + unit"
  verify_port_active :: "int \<Rightarrow> bool"
  dht_stop :: "error + unit"
  wipe_all :: "error + unit"

text \<open>Decimal rendering of an integer, as an f-string does it.\<close>

fun show_nat :: "nat \<Rightarrow> string" where
  "show_nat n =
     (if n < 10 then [''0123456789'' ! n]
      else show_nat (n div 10) @ [''0123456789'' ! (n mod 10)])"

declare show_nat.simps [simp del]

definition show_int :: "int \<Rightarrow> string" where
  "show_int i = (if i < 0 then CHR ''-'' # show_nat (nat (- i)) else show_nat (nat i))"

text \<open>
  \<open>_start_http_server\<close>. When the setup raises, the handler cleans the runner up; an
  exception of that cleanup leaves the function.
\<close>

definition start_http_server :: "env \<Rightarrow> MeshNetwork \<Rightarrow> (error + bool) \<times> MeshNetwork" where
  "start_http_server ev s =
     (if http_runner s then (Inr True, s)
      else
        let s1 = s\<lparr>http_runner := True\<rparr> in
        (case http_setup ev of
           Inr u \<Rightarrow> (Inr True, s1)
         | Inl e \<Rightarrow>
             (case runner_cleanup ev of
                Inl e' \<Rightarrow> (Inl e', s1)
              | Inr u \<Rightarrow> (Inr False, s1\<lparr>http_runner := False\<rparr>))))"

text \<open>
  The \<open>for port_offset in range(self.max_retry_ports)\<close> loop of \<open>start\<close> and the
  \<open>raise\<close> after it. \<open>_cleanup_port\<close> catches its own exceptions, and an exception of
  \<open>dht.stop()\<close> in the handler is dropped, so neither shows here. The three tasks
  created after a successful \<open>listen\<close> run the loops of the section above; creating
  them changes no field.
\<close>

definition exhausted_message :: "MeshNetwork \<Rightarrow> string" where
  "exhausted_message s =
     ''Could not find available port in range '' @ show_int (base_port s + 1) @ ''-'' @
       show_int (base_port s + int (max_retry_ports s))"

fun try_ports :: "env \<Rightarrow> nat list \<Rightarrow> MeshNetwork \<Rightarrow> (error + unit) \<times> MeshNetwork" where
  "try_ports ev [] s = (Inl (RuntimeError (exhausted_message s)), s)"
| "try_ports ev (port_offset # rest) s =
     (let test_port = base_port s + int port_offset + 1 in
      case dht_listen ev test_port of
        Inl e \<Rightarrow> try_ports ev rest (s\<lparr>is_running := False\<rparr>)
      | Inr u \<Rightarrow>
          let s1 = s\<lparr>port := Some test_port, is_running := True\<rparr> in
          if verify_port_active ev test_port then (Inr (), s1)
          else try_ports ev rest (s1\<lparr>is_running := False\<rparr>))"

definition start :: "env \<Rightarrow> MeshNetwork \<Rightarrow> (error + unit) \<times> MeshNetwork" where
  "start ev s =
     (case start_http_server ev s of
        (Inl e, s1) \<Rightarrow> (Inl e, s1)
      | (Inr ok, s1) \<Rightarrow> try_ports ev [0..<max_retry_ports s1] s1)"

text \<open>
  \<open>stop\<close>. The third component lists the teardown calls that were made. The DHT node
  is created in \<open>__init__\<close> and never cleared, so \<open>if self.dht\<close> always holds.
\<close>

datatype teardown = RunnerCleanup | DhtStop

definition stop :: "env \<Rightarrow> MeshNetwork \<Rightarrow> (error + unit) \<times> MeshNetwork \<times> teardown list" where
  "stop ev s =
     (let s1 = s\<lparr>is_running := False\<rparr> in
      if http_runner s1 then
        (case runner_cleanup ev of
           Inl e \<Rightarrow> (Inl e, s1, [RunnerCleanup])
         | Inr u \<Rightarrow>
             let s2 = s1\<lparr>http_runner := False\<rparr> in
             (case dht_stop ev of
                Inl e \<Rightarrow> (Inl e, s2, [RunnerCleanup, DhtStop])
              | Inr u \<Rightarrow> (Inr (), s2, [RunnerCleanup, DhtStop])))
      else
        (case dht_stop ev of
           Inl e \<Rightarrow> (Inl e, s1, [DhtStop])
         | Inr u \<Rightarrow> (Inr (), s1, [DhtStop])))"

text \<open>
  \<open>MeshChat.cleanup\<close> of src/mesh_chat.py, as far as the mesh is concerned: the
  coroutine of \<open>stop\<close> is created, \<open>wipe_all\<close> runs, and \<open>gather\<close> with
  \<open>return_exceptions=True\<close> runs the coroutine and keeps what it raises as a result.
\<close>

definition cleanup :: "env \<Rightarrow> MeshNetwork \<Rightarrow> (error + unit) \<times> MeshNetwork \<times> teardown list" where
  "cleanup ev s =
     (case wipe_all ev of
        Inl e \<Rightarrow> (Inl e, s, [])
      | Inr u \<Rightarrow> (case stop ev s of (r, s', calls) \<Rightarrow> (Inr (), s', calls)))"

section \<open>Properties of the peer table and scenarios\<close>

text \<open>
  What the code keeps true of a peer under every schedule of its tasks: the counter is
  not negative and an active peer has fewer than three failures.
\<close>

definition peer_inv :: "PeerState \<Rightarrow> bool" where
  "peer_inv state =
     (0 \<le> failed_attempts state \<and> (is_active state \<longrightarrow> failed_attempts state < 3))"

text \<open>The same for every peer of the table, and the equality the design document states.\<close>

definition registry_inv :: "MeshNetwork \<Rightarrow> bool" where
  "registry_inv s = list_all (\<lambda>(p, state). peer_inv state) (peers s)"

definition derived_inv :: "MeshNetwork \<Rightarrow> bool" where
  "derived_inv s = list_all (\<lambda>(p, state). is_active state = (failed_attempts state < 3)) (peers s)"

text \<open>
  The heartbeat loop, the maintenance loop and every call of \<open>broadcast_message\<close> are
  tasks of one event loop; a task runs until it awaits. In the loops over the peers the
  test of \<open>is_active\<close> (lines 158 and 243) comes before the awaits of
  \<open>_peer_connection\<close> and \<open>_send_message\<close>, and the assignments to the peer's state
  (lines 166 to 168, 249 to 250 and 252 to 254) come after them, without a second test.
  So a contact is two steps with other tasks in between: the task reaches the peer and,
  if the peer is active, opens the connection; later the connection returns or raises
  and the assignments are made on the state the peer has by then. \<open>pending\<close> holds the
  contacts opened and not yet finished. The body of the maintenance loop has no await
  and is one step. The state objects stay the same when maintenance rebuilds the dict,
  and nothing adds a peer, so an assignment to a peer that maintenance has dropped in
  between changes nothing in the table. The buffer entries of a failed broadcast send
  are not part of the peer table and are left out here.
\<close>

datatype contact = Ping | Frame

record overlay =
  mesh :: MeshNetwork
  pending :: "(contact \<times> peer_id) list"

definition update_peer ::
  "peer_id \<Rightarrow> (PeerState \<Rightarrow> PeerState) \<Rightarrow> (peer_id \<times> PeerState) list \<Rightarrow>
     (peer_id \<times> PeerState) list" where
  "update_peer p f ps = map (\<lambda>(q, state). (q, if q = p then f state else state)) ps"

datatype event =
    Reach contact peer_id
  | Returned contact peer_id real
  | Raised contact peer_id
  | Maintenance real

text \<open>
  \<open>Reach k p\<close>: the loop of a heartbeat (\<open>Ping\<close>) or of a broadcast (\<open>Frame\<close>) comes
  to peer \<open>p\<close> and tests \<open>is_active\<close>. \<open>Returned k p t\<close>: the contact returns, and for
  a heartbeat \<open>time.time()\<close> reads \<open>t\<close>; a broadcast assigns nothing on success.
  \<open>Raised k p\<close>: the contact raises and the handler counts the failure.
  \<open>Maintenance t\<close>: one pass of \<open>_peer_maintenance\<close> at time \<open>t\<close>.
\<close>

fun task_step :: "event \<Rightarrow> overlay \<Rightarrow> overlay" where
  "task_step (Reach k p) c =
     (if list_ex (\<lambda>(q, state). q = p \<and> is_active state) (peers (mesh c))
      then c\<lparr>pending := (k, p) # pending c\<rparr>
      else c)"
| "task_step (Returned k p t) c =
     (if (k, p) \<in> set (pending c) then
        c\<lparr>mesh :=
             (if k = Ping then
                (mesh c)\<lparr>peers :=
                   update_peer p (\<lambda>state. state\<lparr>last_seen := t, failed_attempts := 0\<rparr>)
                     (peers (mesh c))\<rparr>
              else mesh c),
          pending := remove1 (k, p) (pending c)\<rparr>
      else c)"
| "task_step (Raised k p) c =
     (if (k, p) \<in> set (pending c) then
        c\<lparr>mesh := (mesh c)\<lparr>peers := update_peer p note_failure (peers (mesh c))\<rparr>,
          pending := remove1 (k, p) (pending c)\<rparr>
      else c)"
| "task_step (Maintenance t) c = c\<lparr>mesh := peer_maintenance t (mesh c)\<rparr>"

fun run_tasks :: "event list \<Rightarrow> overlay \<Rightarrow> overlay" where
  "run_tasks [] c = c"
| "run_tasks (e # es) c = run_tasks es (task_step e c)"

definition idle :: "MeshNetwork \<Rightarrow> overlay" where
  "idle s = \<lparr>mesh = s, pending = []\<rparr>"

text \<open>Concrete tables and networks used to run the code.\<close>

definition fresh_peer :: "real \<Rightarrow> PeerState" where
  "fresh_peer t = \<lparr>last_seen = t, failed_attempts = 0, is_active = True\<rparr>"

definition down :: send_oracle where
  "down p data = Inl ConnectionError"

definition up :: send_oracle where
  "up p data = Inr ()"

definition clock_at :: "real \<Rightarrow> peer_id \<Rightarrow> real" where
  "clock_at t p = t"

definition one_peer_mesh :: MeshNetwork where
  "one_peer_mesh = (init_mesh 12345 5)\<lparr>peers := [(''10.0.0.2'', fresh_peer 0)]\<rparr>"

definition failed_ping :: "event list" where
  "failed_ping = [Reach Ping ''10.0.0.2'', Raised Ping ''10.0.0.2'']"

definition three_failures :: "event list" where
  "three_failures = failed_ping @ failed_ping @ failed_ping"

definition lost_peer_mesh :: "int \<Rightarrow> MeshNetwork" where
  "lost_peer_mesh n =
     (init_mesh 12345 5)\<lparr>peers :=
        [(''10.0.0.2'', \<lparr>last_seen = 0, failed_attempts = n, is_active = False\<rparr>)]\<rparr>"

text \<open>
  A stand-in for the hash of a text and for the codec: the compressor puts a marker byte
  in front of the data, the decompressor takes it off and raises on anything else.
\<close>

definition length_hash :: "string \<Rightarrow> int" where
  "length_hash mtext = int (length mtext)"

definition toy_codec :: codec where
  "toy_codec =
     \<lparr>encode = map of_char,
      decode = (\<lambda>data. if list_all (\<lambda>b. b < 128) data then Inr (map char_of data) else Inl ZstdError),
      decode_replace = map (\<lambda>b. if b < 128 then char_of b else CHR ''?''),
      zstd_compress = (\<lambda>data. Inr (253 # data)),
      zstd_decompress = (\<lambda>data. case data of [] \<Rightarrow> Inl ZstdError
                           | b # rest \<Rightarrow> if b = 253 then Inr rest else Inl ZstdError)\<rparr>"

definition two_peer_mesh :: MeshNetwork where
  "two_peer_mesh =
     (init_mesh 12345 5)\<lparr>peers :=
        [(''10.0.0.2'', \<lparr>last_seen = 0, failed_attempts = 2, is_active = True\<rparr>),
         (''10.0.0.3'', \<lparr>last_seen = 0, failed_attempts = 3, is_active = False\<rparr>)]\<rparr>"

text \<open>A buffer with an expired entry, a recent one and one still to be retried.\<close>

definition refused :: attempt_oracle where
  "refused k p data = Inl ConnectionError"

definition stale_entry :: BufferedMessage where
  "stale_entry = \<lparr>peer = ''10.0.0.2'', message = [1], attempts = 5, timestamp = 0\<rparr>"

definition recent_entry :: BufferedMessage where
  "recent_entry = \<lparr>peer = ''10.0.0.2'', message = [2], attempts = 5, timestamp = 3000\<rparr>"

definition pending_entry :: BufferedMessage where
  "pending_entry = \<lparr>peer = ''10.0.0.3'', message = [3], attempts = 4, timestamp = 3000\<rparr>"

definition buffered_mesh :: MeshNetwork where
  "buffered_mesh =
     (init_mesh 12345 5)\<lparr>message_buffer := [stale_entry, recent_entry, pending_entry]\<rparr>"

text \<open>A candidate port is good when the DHT listens on it and the check after it passes.\<close>

definition port_ok :: "env \<Rightarrow> int \<Rightarrow> bool" where
  "port_ok ev test_port = (dht_listen ev test_port = Inr () \<and> verify_port_active ev test_port)"

text \<open>
  Environments for the startup and the shutdown: one where the third candidate is the
  first good one, one where no candidate is, and one where the cleanup of the HTTP
  runner raises.
\<close>

definition third_port_env :: env where
  "third_port_env =
     \<lparr>http_setup = Inr (), runner_cleanup = Inr (),
      dht_listen = (\<lambda>test_port. if test_port = 12346 then Inl ConnectionError else Inr ()),
      verify_port_active = (\<lambda>test_port. test_port \<noteq> 12347),
      dht_stop = Inr (), wipe_all = Inr ()\<rparr>"

definition no_port_env :: env where
  "no_port_env =
     \<lparr>http_setup = Inl ConnectionError, runner_cleanup = Inr (),
      dht_listen = (\<lambda>test_port. Inl ConnectionError),
      verify_port_active = (\<lambda>test_port. False),
      dht_stop = Inr (), wipe_all = Inr ()\<rparr>"

definition failing_cleanup_env :: env where
  "failing_cleanup_env =
     \<lparr>http_setup = Inr (), runner_cleanup = Inl CleanupError,
      dht_listen = (\<lambda>test_port. Inr ()),
      verify_port_active = (\<lambda>test_port. True),
      dht_stop = Inr (), wipe_all = Inr ()\<rparr>"

definition started_mesh :: MeshNetwork where
  "started_mesh = (init_mesh 12345 5)\<lparr>port := Some 12346, is_running := True, http_runner := True\<rparr>"

section \<open>Lookup in the peer table after a maintenance pass\<close>

lemma fst_comp_update: "fst \<circ> (\<lambda>(p, state). (p, f state)) = fst"
  by (rule ext) (simp add: case_prod_unfold)

lemma keys_maintained:
  "fst ` set (map (\<lambda>(p, state). (p, f state)) (filter (\<lambda>(p, state). P state) ps)) \<subseteq> fst ` set ps"
  by force

lemma map_of_maintained:
  "distinct (map fst ps) \<Longrightarrow>
   map_of (map (\<lambda>(p, state). (p, f state)) (filter (\<lambda>(p, state). P state) ps)) q =
     (case map_of ps q of None \<Rightarrow> None
      | Some state \<Rightarrow> if P state then Some (f state) else None)"
proof (induction ps)
  case Nil
  then show ?case by simp
next
  case (Cons a ps)
  obtain p state where a: "a = (p, state)" by (cases a)
  from Cons.prems a have notin: "p \<notin> fst ` set ps" and d: "distinct (map fst ps)"
    by auto
  from notin have none: "map_of ps p = None"
    by (simp add: map_of_eq_None_iff)
  from notin keys_maintained [of f P ps]
  have none': "map_of (map (\<lambda>(p, state). (p, f state)) (filter (\<lambda>(p, state). P state) ps)) p = None"
    unfolding map_of_eq_None_iff by blast
  show ?case
    using Cons.IH [OF d] none none' by (simp add: a)
qed

lemma distinct_maintained:
  "distinct (map fst ps) \<Longrightarrow>
   distinct (map fst (map (\<lambda>(p, state). (p, f state)) (filter (\<lambda>(p, state). P state) ps)))"
  by (simp add: fst_comp_update distinct_map_filter)

lemma maintenance_lookup:
  "distinct (map fst (peers s)) \<Longrightarrow>
   map_of (peers (peer_maintenance t s)) q =
     (case map_of (peers s) q of None \<Rightarrow> None
      | Some state \<Rightarrow>
          if t - last_seen state < real_of_int (peer_timeout s) then Some (decay state) else None)"
  unfolding peer_maintenance_def by (simp add: map_of_maintained)

lemma maintenance_distinct:
  "distinct (map fst (peers s)) \<Longrightarrow> distinct (map fst (peers (peer_maintenance t s)))"
  using distinct_maintained [of "peers s" decay "\<lambda>state. t - last_seen state < real_of_int (peer_timeout s)"]
  by (simp add: peer_maintenance_def)


section \<open>The peer table under its mutations\<close>

lemma peer_inv_note_failure: "peer_inv state \<Longrightarrow> peer_inv (note_failure state)"
  by (auto simp: peer_inv_def note_failure_def Let_def)

lemma peer_inv_decay: "peer_inv state \<Longrightarrow> peer_inv (decay state)"
  by (auto simp: peer_inv_def decay_def Let_def)

lemma peer_inv_success:
  "peer_inv state \<Longrightarrow> peer_inv (state\<lparr>last_seen := t, failed_attempts := 0\<rparr>)"
  by (auto simp: peer_inv_def)

lemma maintenance_inv:
  "registry_inv s \<Longrightarrow> registry_inv (peer_maintenance t s)"
  by (auto simp: registry_inv_def peer_maintenance_def list_all_iff peer_inv_decay)

lemma update_peer_inv:
  assumes "list_all (\<lambda>(q, state). peer_inv state) ps"
    and "\<And>state. peer_inv state \<Longrightarrow> peer_inv (f state)"
  shows "list_all (\<lambda>(q, state). peer_inv state) (update_peer p f ps)"
  using assms by (induction ps) (auto simp: update_peer_def)

lemma update_peer_keys: "map fst (update_peer p f ps) = map fst ps"
  by (induction ps) (auto simp: update_peer_def)

lemma update_peer_lookup:
  "map_of (update_peer p f ps) q =
     (if q = p then map_option f (map_of ps q) else map_of ps q)"
  by (induction ps) (auto simp: update_peer_def)

lemma task_step_inv: "registry_inv (mesh c) \<Longrightarrow> registry_inv (mesh (task_step e c))"
proof (cases e)
  case (Reach k p)
  assume "registry_inv (mesh c)"
  then show ?thesis using Reach by simp
next
  case (Returned k p t)
  assume "registry_inv (mesh c)"
  then show ?thesis
    using Returned by (simp add: registry_inv_def update_peer_inv peer_inv_success)
next
  case (Raised k p)
  assume "registry_inv (mesh c)"
  then show ?thesis
    using Raised by (simp add: registry_inv_def update_peer_inv peer_inv_note_failure)
next
  case (Maintenance t)
  assume "registry_inv (mesh c)"
  then show ?thesis
    using Maintenance by (simp add: maintenance_inv)
qed

lemma task_step_distinct:
  "distinct (map fst (peers (mesh c))) \<Longrightarrow> distinct (map fst (peers (mesh (task_step e c))))"
  by (cases e) (simp_all add: update_peer_keys maintenance_distinct)

lemma run_tasks_inv: "registry_inv (mesh c) \<Longrightarrow> registry_inv (mesh (run_tasks es c))"
  by (induction es arbitrary: c) (simp_all add: task_step_inv)

lemma run_tasks_distinct:
  "distinct (map fst (peers (mesh c))) \<Longrightarrow> distinct (map fst (peers (mesh (run_tasks es c))))"
  by (induction es arbitrary: c) (simp_all add: task_step_distinct)

text \<open>
  One step turns a peer inactive only by a failure that brings the counter to three or
  more, and turns it active only by a decay that brings the counter to zero.
\<close>

lemma task_step_switch:
  assumes "distinct (map fst (peers (mesh c)))"
    and "map_of (peers (mesh c)) q = Some state"
    and "map_of (peers (mesh (task_step e c))) q = Some state'"
  shows "(\<not> is_active state \<and> is_active state' \<longrightarrow> failed_attempts state' = 0) \<and>
         (is_active state \<and> \<not> is_active state' \<longrightarrow> 3 \<le> failed_attempts state')"
proof (cases e)
  case (Reach k p)
  then show ?thesis using assms by simp
next
  case (Returned k p t)
  then show ?thesis
    using assms by (auto simp: update_peer_lookup split: if_splits)
next
  case (Raised k p)
  then show ?thesis
    using assms by (auto simp: update_peer_lookup note_failure_def Let_def split: if_splits)
next
  case (Maintenance t)
  then show ?thesis
    using assms by (auto simp: maintenance_lookup decay_def Let_def split: if_splits)
qed

text \<open>The passes of the sections above, run without interleaving, keep it as well.\<close>

lemma broadcast_peers_inv:
  "list_all (\<lambda>(p, state). peer_inv state) ps \<Longrightarrow>
   list_all (\<lambda>(p, state). peer_inv state) (fst (broadcast_peers net z ps))"
  by (induction ps) (auto split: prod.splits sum.splits simp: peer_inv_note_failure)

lemma heartbeat_peers_inv:
  "list_all (\<lambda>(p, state). peer_inv state) ps \<Longrightarrow>
   list_all (\<lambda>(p, state). peer_inv state) (fst (heartbeat_peers net clock ps))"
  by (induction ps) (auto split: prod.splits sum.splits simp: peer_inv_note_failure peer_inv_success)

lemma broadcast_inv:
  "registry_inv s \<Longrightarrow> registry_inv (fst (broadcast_message fp c net clock mtext s))"
  using broadcast_peers_inv[of "peers s" net "compress_message c mtext"]
  by (auto simp: registry_inv_def broadcast_message_def Let_def split: prod.splits)

lemma heartbeat_inv:
  "registry_inv s \<Longrightarrow> registry_inv (fst (heartbeat net clock s))"
  using heartbeat_peers_inv[of "peers s" net clock]
  by (auto simp: registry_inv_def heartbeat_def split: prod.splits)

lemmas mesh_eval =
  one_peer_mesh_def lost_peer_mesh_def init_mesh_def fresh_peer_def heartbeat_def down_def up_def
  note_failure_def peer_maintenance_def decay_def three_failures_def PING_def clock_at_def
  two_peer_mesh_def

lemmas task_eval = idle_def failed_ping_def update_peer_def

text \<open>
  Three failed heartbeats, one after the other, bring a fresh peer to three failures and
  make it inactive; the next maintenance pass lowers the counter to 2 and leaves the
  peer inactive, so the equality of \<open>is_active\<close> with \<open>failed_attempts < 3\<close> is lost.
\<close>

theorem derived_invariant_counterexample:
  "derived_inv one_peer_mesh \<and>
   \<not> derived_inv (mesh (run_tasks (three_failures @ [Maintenance 100]) (idle one_peer_mesh)))"
  by (simp add: derived_inv_def mesh_eval task_eval)

text \<open>
  When a heartbeat and a broadcast have both opened a connection to an active peer with
  two failures, the peer has changed by the time the second of them finishes: two
  failures leave four on the counter, and a failure followed by the success of the
  heartbeat leaves the peer inactive with none.
\<close>

lemma interleaved_contacts:
  "peers (mesh (run_tasks [Reach Ping ''10.0.0.2'', Reach Frame ''10.0.0.2'',
                            Raised Ping ''10.0.0.2'', Raised Frame ''10.0.0.2'']
                  (idle two_peer_mesh))) ! 0 =
     (''10.0.0.2'', \<lparr>last_seen = 0, failed_attempts = 4, is_active = False\<rparr>) \<and>
   peers (mesh (run_tasks [Reach Ping ''10.0.0.2'', Reach Frame ''10.0.0.2'',
                            Raised Frame ''10.0.0.2'', Returned Ping ''10.0.0.2'' 120]
                  (idle two_peer_mesh))) ! 0 =
     (''10.0.0.2'', \<lparr>last_seen = 120, failed_attempts = 0, is_active = False\<rparr>)"
  by (simp add: mesh_eval task_eval)

text \<open>
  C1, as the code has it: in every interleaving of the tasks, after every mutation of a
  peer's state (a send failure of a broadcast or of a heartbeat, a heartbeat success, a
  maintenance decay) \<open>failed_attempts\<close> is not negative and \<open>is_active\<close> implies
  \<open>failed_attempts < 3\<close>. The converse does not hold: a mutation makes an active peer
  inactive only when it leaves \<open>failed_attempts\<close> at 3 or more, and makes an inactive
  peer active only when it leaves \<open>failed_attempts\<close> at 0, so in between a peer is
  inactive with fewer than three failures.
\<close>

theorem registry_invariant:
  assumes "registry_inv (mesh c)"
    and "distinct (map fst (peers (mesh c)))"
  shows "registry_inv (mesh (run_tasks es c)) \<and>
         (\<forall>q state state'.
            map_of (peers (mesh (run_tasks es c))) q = Some state \<and>
            map_of (peers (mesh (task_step e (run_tasks es c)))) q = Some state' \<longrightarrow>
              (\<not> is_active state \<and> is_active state' \<longrightarrow> failed_attempts state' = 0) \<and>
              (is_active state \<and> \<not> is_active state' \<longrightarrow> 3 \<le> failed_attempts state'))"
proof (intro conjI allI impI)
  show "registry_inv (mesh (run_tasks es c))"
    using assms(1) by (rule run_tasks_inv)
next
  fix q state state'
  assume look: "map_of (peers (mesh (run_tasks es c))) q = Some state \<and>
                map_of (peers (mesh (task_step e (run_tasks es c)))) q = Some state'"
  have d: "distinct (map fst (peers (mesh (run_tasks es c))))"
    using assms(2) by (rule run_tasks_distinct)
  have sw: "(\<not> is_active state \<and> is_active state' \<longrightarrow> failed_attempts state' = 0) \<and>
            (is_active state \<and> \<not> is_active state' \<longrightarrow> 3 \<le> failed_attempts state')"
    using task_step_switch [OF d] look by blast
  {
    assume "\<not> is_active state \<and> is_active state'"
    then show "failed_attempts state' = 0" using sw by blast
  }
  {
    assume "is_active state \<and> \<not> is_active state'"
    then show "3 \<le> failed_attempts state'" using sw by blast
  }
qed

theorem registry_invariant_witness:
  "registry_inv (mesh (idle one_peer_mesh)) \<and>
   distinct (map fst (peers (mesh (idle one_peer_mesh)))) \<and>
   registry_inv (mesh (run_tasks (three_failures @ [Maintenance 100]) (idle one_peer_mesh))) \<and>
   map_of (peers (mesh (run_tasks (failed_ping @ failed_ping) (idle one_peer_mesh)))) ''10.0.0.2'' =
     Some \<lparr>last_seen = 0, failed_attempts = 2, is_active = True\<rparr> \<and>
   map_of (peers (mesh (run_tasks three_failures (idle one_peer_mesh)))) ''10.0.0.2'' =
     Some \<lparr>last_seen = 0, failed_attempts = 3, is_active = False\<rparr>"
proof -
  have h: "registry_inv (mesh (idle one_peer_mesh))"
    by (simp add: registry_inv_def peer_inv_def mesh_eval task_eval)
  have d: "distinct (map fst (peers (mesh (idle one_peer_mesh))))"
    by (simp add: mesh_eval task_eval)
  have before: "map_of (peers (mesh (run_tasks (failed_ping @ failed_ping) (idle one_peer_mesh))))
        ''10.0.0.2'' = Some \<lparr>last_seen = 0, failed_attempts = 2, is_active = True\<rparr>"
    by (simp add: mesh_eval task_eval)
  have after: "map_of (peers (mesh (run_tasks three_failures (idle one_peer_mesh))))
        ''10.0.0.2'' = Some \<lparr>last_seen = 0, failed_attempts = 3, is_active = False\<rparr>"
    by (simp add: mesh_eval task_eval)
  show ?thesis
    using h d before after
      registry_invariant [OF h d, of "three_failures @ [Maintenance 100]"]
    by simp
qed

section \<open>Decay of the failure counter\<close>




section \<open>The heartbeat pass\<close>

lemma heartbeat_peers_table:
  "fst (heartbeat_peers net clock ps) =
     map (\<lambda>(p, state). (p,
            if \<not> is_active state then state
            else (case net p PING of
                    Inr u \<Rightarrow> state\<lparr>last_seen := clock p, failed_attempts := 0\<rparr>
                  | Inl e \<Rightarrow> note_failure state))) ps"
  by (induction ps) (auto simp: case_prod_unfold split: sum.splits)

lemma heartbeat_peers_sent:
  "snd (heartbeat_peers net clock ps) =
     map (\<lambda>(p, state). (p, PING)) (filter (\<lambda>(p, state). is_active state) ps)"
  by (induction ps) (auto simp: case_prod_unfold split: sum.splits)

lemma heartbeat_table:
  "peers (fst (heartbeat net clock s)) = fst (heartbeat_peers net clock (peers s))"
  by (simp add: heartbeat_def split: prod.splits)

lemma heartbeat_sent:
  "snd (heartbeat net clock s) = snd (heartbeat_peers net clock (peers s))"
  by (simp add: heartbeat_def split: prod.splits)

text \<open>
  A heartbeat pass over a table whose only peer is inactive contacts nobody and returns
  the table as it was, whatever the network would have answered: the peer stays inactive.
\<close>

theorem heartbeat_reactivation_counterexample:
  "\<not> is_active (snd (peers (lost_peer_mesh 3) ! 0)) \<and>
   heartbeat up (clock_at 120) (lost_peer_mesh 3) = (lost_peer_mesh 3, [])"
  by (simp add: mesh_eval)

text \<open>
  C5, as the code has it: for an active peer a successful heartbeat sets \<open>last_seen\<close>
  to the time read after the send and \<open>failed_attempts\<close> to 0, and the peer stays
  active; a peer that is inactive when the pass reaches it is still inactive after the
  pass, so the heartbeat is no way back to active.
\<close>

theorem heartbeat_success:
  "i < length (peers s) \<Longrightarrow> peers s ! i = (p, state) \<Longrightarrow>
   (is_active state \<and> net p PING = Inr () \<longrightarrow>
      peers (fst (heartbeat net clock s)) ! i =
        (p, state\<lparr>last_seen := clock p, failed_attempts := 0\<rparr>) \<and>
      is_active (snd (peers (fst (heartbeat net clock s)) ! i))) \<and>
   (\<not> is_active state \<longrightarrow> \<not> is_active (snd (peers (fst (heartbeat net clock s)) ! i)))"
  by (simp add: heartbeat_table heartbeat_peers_table)

theorem heartbeat_success_witness:
  "peers (fst (heartbeat up (clock_at 120) two_peer_mesh)) ! 0 =
     (''10.0.0.2'', \<lparr>last_seen = 120, failed_attempts = 0, is_active = True\<rparr>) \<and>
   \<not> is_active (snd (peers (fst (heartbeat up (clock_at 120) two_peer_mesh)) ! 1))"
  using heartbeat_success [of 0 two_peer_mesh "''10.0.0.2''"
      "\<lparr>last_seen = 0, failed_attempts = 2, is_active = True\<rparr>" up "clock_at 120"]
    heartbeat_success [of 1 two_peer_mesh "''10.0.0.3''"
      "\<lparr>last_seen = 0, failed_attempts = 3, is_active = False\<rparr>" up "clock_at 120"]
  by (simp add: two_peer_mesh_def init_mesh_def up_def clock_at_def)

text \<open>
  C10: a heartbeat pass opens a connection and sends \<open>PING\<close> to the peers that are
  active when it reaches them and to no other, and it leaves every inactive entry of the
  table as it was, \<open>last_seen\<close> and \<open>failed_attempts\<close> included.
\<close>

theorem heartbeat_skips_inactive:
  "snd (heartbeat net clock s) =
     map (\<lambda>(p, state). (p, PING)) (filter (\<lambda>(p, state). is_active state) (peers s)) \<and>
   length (peers (fst (heartbeat net clock s))) = length (peers s) \<and>
   (\<forall>i < length (peers s). \<not> is_active (snd (peers s ! i)) \<longrightarrow>
      peers (fst (heartbeat net clock s)) ! i = peers s ! i)"
  by (auto simp: heartbeat_table heartbeat_sent heartbeat_peers_table heartbeat_peers_sent
      case_prod_unfold)

theorem heartbeat_skips_inactive_witness:
  "snd (heartbeat up (clock_at 120) two_peer_mesh) = [(''10.0.0.2'', PING)] \<and>
   peers (fst (heartbeat up (clock_at 120) two_peer_mesh)) ! 1 =
     (''10.0.0.3'', \<lparr>last_seen = 0, failed_attempts = 3, is_active = False\<rparr>)"
  using heartbeat_skips_inactive [of up "clock_at 120" two_peer_mesh]
  by (simp add: two_peer_mesh_def init_mesh_def)

section \<open>Broadcast\<close>

lemma broadcast_peers_table:
  "fst (broadcast_peers net z ps) =
     map (\<lambda>(p, state). (p, if is_active state \<and> isl (net p z) then note_failure state else state)) ps"
  by (induction ps) (auto simp: case_prod_unfold split: sum.splits)

lemma broadcast_peers_failed:
  "fst (snd (broadcast_peers net z ps)) =
     map (\<lambda>(p, state). (p, z)) (filter (\<lambda>(p, state). is_active state \<and> isl (net p z)) ps)"
  by (induction ps) (auto simp: case_prod_unfold split: sum.splits)

lemma broadcast_peers_sent:
  "snd (snd (broadcast_peers net z ps)) =
     map (\<lambda>(p, state). (p, z)) (filter (\<lambda>(p, state). is_active state) ps)"
  by (induction ps) (auto simp: case_prod_unfold split: sum.splits)

lemma broadcast_known:
  "fp mtext \<in> known_messages s \<Longrightarrow> broadcast_message fp c net clock mtext s = (s, [])"
  by (simp add: broadcast_message_def)

lemma broadcast_records:
  "fp mtext \<in> known_messages (fst (broadcast_message fp c net clock mtext s))"
  by (simp add: broadcast_message_def Let_def split: prod.splits)

lemma broadcast_sent:
  "snd (broadcast_message fp c net clock mtext s) =
     (if fp mtext \<in> known_messages s then []
      else map (\<lambda>(p, state). (p, compress_message c mtext))
             (filter (\<lambda>(p, state). is_active state) (peers s)))"
  using broadcast_peers_sent [of net "compress_message c mtext" "peers s"]
  by (auto simp: broadcast_message_def Let_def split: prod.splits)

lemma note_failure_active:
  "is_active state \<Longrightarrow>
   note_failure state =
     state\<lparr>failed_attempts := failed_attempts state + 1,
           is_active := (failed_attempts state + 1 < 3)\<rparr>"
  by (auto simp: note_failure_def Let_def)

text \<open>
  C7: in a broadcast of a text not seen before, every active peer is tried once and no
  inactive one; each peer whose send fails gets one more failure (and turns inactive at
  three) and one new buffer entry with \<open>attempts = 0\<close>, appended in table order; the
  peers whose send succeeds and the inactive peers are left as they were. The call
  returns this result for every outcome of the sends: a failure is absorbed in the loop.
\<close>

theorem broadcast_failures_buffered:
  "fp mtext \<notin> known_messages s \<Longrightarrow>
   peers (fst (broadcast_message fp c net clock mtext s)) =
     map (\<lambda>(p, state). (p,
            if is_active state \<and> isl (net p (compress_message c mtext))
            then state\<lparr>failed_attempts := failed_attempts state + 1,
                       is_active := (failed_attempts state + 1 < 3)\<rparr>
            else state)) (peers s) \<and>
   message_buffer (fst (broadcast_message fp c net clock mtext s)) =
     message_buffer s @
     map (\<lambda>(p, state). \<lparr>peer = p, message = compress_message c mtext, attempts = 0,
                         timestamp = clock p\<rparr>)
       (filter (\<lambda>(p, state). is_active state \<and> isl (net p (compress_message c mtext))) (peers s)) \<and>
   snd (broadcast_message fp c net clock mtext s) =
     map (\<lambda>(p, state). (p, compress_message c mtext))
       (filter (\<lambda>(p, state). is_active state) (peers s))"
proof -
  assume new: "fp mtext \<notin> known_messages s"
  let ?z = "compress_message c mtext"
  obtain ps failed sent where bp: "broadcast_peers net ?z (peers s) = (ps, failed, sent)"
    by (cases "broadcast_peers net ?z (peers s)") auto
  have ps: "ps = map (\<lambda>(p, state). (p, if is_active state \<and> isl (net p ?z) then note_failure state else state)) (peers s)"
    using broadcast_peers_table [of net ?z "peers s"] bp by simp
  have ps': "ps = map (\<lambda>(p, state). (p,
            if is_active state \<and> isl (net p ?z)
            then state\<lparr>failed_attempts := failed_attempts state + 1,
                       is_active := (failed_attempts state + 1 < 3)\<rparr>
            else state)) (peers s)"
    unfolding ps by (rule map_cong) (auto simp: note_failure_active)
  have failed: "failed = map (\<lambda>(p, state). (p, ?z)) (filter (\<lambda>(p, state). is_active state \<and> isl (net p ?z)) (peers s))"
    using broadcast_peers_failed [of net ?z "peers s"] bp by simp
  have sent: "sent = map (\<lambda>(p, state). (p, ?z)) (filter (\<lambda>(p, state). is_active state) (peers s))"
    using broadcast_peers_sent [of net ?z "peers s"] bp by simp
  have r: "broadcast_message fp c net clock mtext s =
      (s\<lparr>known_messages := insert (fp mtext) (known_messages s), peers := ps,
          message_buffer := message_buffer s @
            map (\<lambda>(p, msg). \<lparr>peer = p, message = msg, attempts = 0, timestamp = clock p\<rparr>) failed\<rparr>,
       sent)"
    using new bp by (simp add: broadcast_message_def Let_def)
  have buf: "map (\<lambda>(p, msg). \<lparr>peer = p, message = msg, attempts = 0, timestamp = clock p\<rparr>) failed =
     map (\<lambda>(p, state). \<lparr>peer = p, message = ?z, attempts = 0, timestamp = clock p\<rparr>)
       (filter (\<lambda>(p, state). is_active state \<and> isl (net p ?z)) (peers s))"
    unfolding failed by (simp add: case_prod_unfold comp_def)
  show ?thesis
    unfolding r using ps' sent buf by simp
qed

theorem broadcast_failures_buffered_witness:
  "peers (fst (broadcast_message length_hash toy_codec down (clock_at 7) ''hi'' two_peer_mesh)) =
     [(''10.0.0.2'', \<lparr>last_seen = 0, failed_attempts = 3, is_active = False\<rparr>),
      (''10.0.0.3'', \<lparr>last_seen = 0, failed_attempts = 3, is_active = False\<rparr>)] \<and>
   message_buffer (fst (broadcast_message length_hash toy_codec down (clock_at 7) ''hi'' two_peer_mesh)) =
     [\<lparr>peer = ''10.0.0.2'', message = [253, 104, 105], attempts = 0, timestamp = 7\<rparr>] \<and>
   snd (broadcast_message length_hash toy_codec down (clock_at 7) ''hi'' two_peer_mesh) =
     [(''10.0.0.2'', [253, 104, 105])]"
  using broadcast_failures_buffered [where fp = length_hash and mtext = "''hi''"
      and s = two_peer_mesh and c = toy_codec and net = down and clock = "clock_at 7"]
  by (simp add: two_peer_mesh_def init_mesh_def length_hash_def toy_codec_def compress_message_def
      down_def clock_at_def)

text \<open>
  C2: a second broadcast of the same text, whatever the network does then, finds the
  fingerprint recorded by the first, leaves the state as it is and contacts no peer; with
  the keys of the peer table distinct, as in a dict, the two calls together try each
  peer at most once.
\<close>

theorem broadcast_idempotent:
  "(case broadcast_message fp c net clock mtext s of
      (s1, sent1) \<Rightarrow>
        (case broadcast_message fp c net' clock' mtext s1 of
           (s2, sent2) \<Rightarrow>
             s2 = s1 \<and> sent2 = [] \<and>
             (distinct (map fst (peers s)) \<longrightarrow> distinct (map fst (sent1 @ sent2)))))"
proof -
  obtain s1 sent1 where b1: "broadcast_message fp c net clock mtext s = (s1, sent1)"
    by (cases "broadcast_message fp c net clock mtext s") auto
  have known: "fp mtext \<in> known_messages s1"
    using broadcast_records [of fp mtext c net clock s] b1 by simp
  have b2: "broadcast_message fp c net' clock' mtext s1 = (s1, [])"
    using known by (rule broadcast_known)
  have sent1: "sent1 = (if fp mtext \<in> known_messages s then []
      else map (\<lambda>(p, state). (p, compress_message c mtext))
             (filter (\<lambda>(p, state). is_active state) (peers s)))"
    using broadcast_sent [of fp c net clock mtext s] b1 by simp
  have "distinct (map fst (peers s)) \<Longrightarrow> distinct (map fst sent1)"
    unfolding sent1 by (simp add: comp_def case_prod_unfold distinct_map_filter)
  then show ?thesis
    using b1 b2 by simp
qed

theorem broadcast_idempotent_witness:
  "(case broadcast_message length_hash toy_codec up (clock_at 7) ''hi'' two_peer_mesh of
      (s1, sent1) \<Rightarrow>
        (case broadcast_message length_hash toy_codec up (clock_at 9) ''hi'' s1 of
           (s2, sent2) \<Rightarrow> s2 = s1 \<and> sent1 = [(''10.0.0.2'', [253, 104, 105])] \<and> sent2 = []))"
  using broadcast_idempotent [where fp = length_hash and c = toy_codec and net = up
      and clock = "clock_at 7" and mtext = "''hi''" and s = two_peer_mesh and net' = up
      and clock' = "clock_at 9"]
  by (simp add: two_peer_mesh_def init_mesh_def length_hash_def toy_codec_def compress_message_def
      up_def clock_at_def broadcast_message_def)

section \<open>Buffered delivery\<close>

text \<open>
  Removing the first entry equal to the one at position \<open>i\<close> leaves the entries after
  \<open>i\<close> as they are and the entries before \<open>i\<close> the same up to order.
\<close>

lemma remove1_nth_take:
  "i < length buf \<Longrightarrow> mset (take i (remove1 (buf ! i) buf)) = mset (take i buf)"
proof (induction buf arbitrary: i)
  case Nil
  then show ?case by simp
next
  case (Cons x xs)
  show ?case
  proof (cases i)
    case 0
    then show ?thesis by simp
  next
    case (Suc j)
    with Cons.prems have j: "j < length xs" by simp
    show ?thesis
    proof (cases "x = xs ! j")
      case True
      then show ?thesis
        using Suc j by (simp add: take_Suc_conv_app_nth)
    next
      case False
      then show ?thesis
        using Suc j Cons.IH [OF j] by simp
    qed
  qed
qed

lemma remove1_nth_drop:
  "i < length buf \<Longrightarrow> drop i (remove1 (buf ! i) buf) = drop (Suc i) buf"
proof (induction buf arbitrary: i)
  case Nil
  then show ?case by simp
next
  case (Cons x xs)
  show ?case
  proof (cases i)
    case 0
    then show ?thesis by simp
  next
    case (Suc j)
    with Cons.prems have j: "j < length xs" by simp
    show ?thesis
    proof (cases "x = xs ! j")
      case True
      then show ?thesis
        using Suc j by simp
    next
      case False
      then show ?thesis
        using Suc j Cons.IH [OF j] by simp
    qed
  qed
qed

lemma loop_refines_spec:
  "mset (fst (handle_buffer_loop t net k i buf)) =
     mset (take i buf) + mset (fst (buffer_spec t net k (drop i buf))) \<and>
   snd (handle_buffer_loop t net k i buf) = snd (buffer_spec t net k (drop i buf))"
proof (induction t net k i buf rule: handle_buffer_loop.induct)
  case (1 t net k i buf)
  show ?case
  proof (cases "length buf \<le> i")
    case True
    then show ?thesis
      by (simp add: handle_buffer_loop.simps [of t net k i buf])
  next
    case False
    then have i: "i < length buf" by simp
    define msg where "msg = buf ! i"
    have dr: "drop i buf = msg # drop (Suc i) buf"
      using i by (simp add: msg_def Cons_nth_drop_Suc)
    have tk: "take (Suc i) buf = take i buf @ [msg]"
      using i by (simp add: msg_def take_Suc_conv_app_nth)
    have rm_take: "mset (take i (remove1 msg buf)) = mset (take i buf)"
      unfolding msg_def using i by (rule remove1_nth_take)
    have rm_drop: "drop i (remove1 msg buf) = drop (Suc i) buf"
      unfolding msg_def using i by (rule remove1_nth_drop)
    show ?thesis
    proof (cases "attempts msg < 5")
      case True
      show ?thesis
      proof (cases "net k (peer msg) (message msg)")
        case (Inr u)
        have ih: "mset (fst (handle_buffer_loop t net (Suc k) i (remove1 msg buf))) =
                    mset (take i (remove1 msg buf)) +
                    mset (fst (buffer_spec t net (Suc k) (drop i (remove1 msg buf)))) \<and>
                  snd (handle_buffer_loop t net (Suc k) i (remove1 msg buf)) =
                    snd (buffer_spec t net (Suc k) (drop i (remove1 msg buf)))"
          using "1.IH"(2) [OF False msg_def True Inr] .
        show ?thesis
          using ih True Inr False
          by (simp add: handle_buffer_loop.simps [of t net k i buf] msg_def [symmetric] dr
              rm_take rm_drop)
      next
        case (Inl e)
        let ?msg' = "msg\<lparr>attempts := attempts msg + 1\<rparr>"
        have ih: "mset (fst (handle_buffer_loop t net (Suc k) (Suc i) (buf[i := ?msg']))) =
                    mset (take (Suc i) (buf[i := ?msg'])) +
                    mset (fst (buffer_spec t net (Suc k) (drop (Suc i) (buf[i := ?msg'])))) \<and>
                  snd (handle_buffer_loop t net (Suc k) (Suc i) (buf[i := ?msg'])) =
                    snd (buffer_spec t net (Suc k) (drop (Suc i) (buf[i := ?msg'])))"
          using "1.IH"(1) [OF False msg_def True Inl] .
        have tk': "take (Suc i) (buf[i := ?msg']) = take i buf @ [?msg']"
          using i by (simp add: take_Suc_conv_app_nth)
        show ?thesis
          using ih True Inl False
          by (simp add: handle_buffer_loop.simps [of t net k i buf] msg_def [symmetric] dr tk')
      qed
    next
      case notry: False
      show ?thesis
      proof (cases "t - timestamp msg > 3600")
        case True
        have ih: "mset (fst (handle_buffer_loop t net k i (remove1 msg buf))) =
                    mset (take i (remove1 msg buf)) +
                    mset (fst (buffer_spec t net k (drop i (remove1 msg buf)))) \<and>
                  snd (handle_buffer_loop t net k i (remove1 msg buf)) =
                    snd (buffer_spec t net k (drop i (remove1 msg buf)))"
          using "1.IH"(3) [OF False msg_def notry True] .
        show ?thesis
          using ih True notry False
          by (simp add: handle_buffer_loop.simps [of t net k i buf] msg_def [symmetric] dr
              rm_take rm_drop)
      next
        case keep: False
        have ih: "mset (fst (handle_buffer_loop t net k (Suc i) buf)) =
                    mset (take (Suc i) buf) +
                    mset (fst (buffer_spec t net k (drop (Suc i) buf))) \<and>
                  snd (handle_buffer_loop t net k (Suc i) buf) =
                    snd (buffer_spec t net k (drop (Suc i) buf))"
          using "1.IH"(4) [OF False msg_def notry keep] .
        show ?thesis
          using ih keep notry False
          by (simp add: handle_buffer_loop.simps [of t net k i buf] msg_def [symmetric] dr tk)
      qed
    qed
  qed
qed

lemma buffer_spec_tried: "msg \<in> set (snd (buffer_spec t net k buf)) \<Longrightarrow> attempts msg < 5"
  by (induction buf arbitrary: k) (auto split: if_splits sum.splits)

text \<open>
  C4: in every pass of buffered delivery a delivery is attempted only for entries with
  fewer than five attempts, so an entry that has reached five is never tried again; the
  attempts made and the entries left in the buffer are those of the rule \<open>buffer_spec\<close>:
  an entry with five attempts or more is dropped in the first pass that finds it older
  than 3600 seconds and kept unchanged until then, and an entry with fewer is removed
  when its delivery succeeds and kept, with one more attempt, when it fails.
\<close>

theorem buffered_delivery:
  "(\<forall>msg \<in> set (snd (handle_message_buffer t net s)). attempts msg < 5) \<and>
   snd (handle_message_buffer t net s) = snd (buffer_spec t net 0 (message_buffer s)) \<and>
   mset (message_buffer (fst (handle_message_buffer t net s))) =
     mset (fst (buffer_spec t net 0 (message_buffer s)))"
proof -
  have r: "mset (fst (handle_buffer_loop t net 0 0 (message_buffer s))) =
             mset (fst (buffer_spec t net 0 (message_buffer s))) \<and>
           snd (handle_buffer_loop t net 0 0 (message_buffer s)) =
             snd (buffer_spec t net 0 (message_buffer s))"
    using loop_refines_spec [of t net 0 0 "message_buffer s"] by simp
  have tried: "snd (handle_message_buffer t net s) = snd (buffer_spec t net 0 (message_buffer s))"
    using r by (simp add: handle_message_buffer_def case_prod_unfold)
  have kept: "mset (message_buffer (fst (handle_message_buffer t net s))) =
     mset (fst (buffer_spec t net 0 (message_buffer s)))"
    using r by (simp add: handle_message_buffer_def case_prod_unfold)
  show ?thesis
    using tried kept buffer_spec_tried [of _ t net 0 "message_buffer s"] by simp
qed

theorem buffered_delivery_witness:
  "snd (handle_message_buffer 4000 refused buffered_mesh) = [pending_entry] \<and>
   attempts pending_entry < 5 \<and>
   mset (message_buffer (fst (handle_message_buffer 4000 refused buffered_mesh))) =
     {#recent_entry, pending_entry\<lparr>attempts := 5\<rparr>#}"
  using buffered_delivery [of 4000 refused buffered_mesh]
  by (simp add: buffered_mesh_def init_mesh_def stale_entry_def recent_entry_def
      pending_entry_def refused_def)

section \<open>Startup\<close>

lemma try_ports_static:
  "base_port (snd (try_ports ev offs s)) = base_port s \<and>
   max_retry_ports (snd (try_ports ev offs s)) = max_retry_ports s"
  by (induction offs arbitrary: s) (auto simp: Let_def split: sum.splits)

lemma try_ports_exhausted:
  "\<forall>off \<in> set offs. \<not> port_ok ev (base_port s + int off + 1) \<Longrightarrow>
   fst (try_ports ev offs s) = Inl (RuntimeError (exhausted_message s))"
proof (induction offs arbitrary: s)
  case Nil
  then show ?case by simp
next
  case (Cons off offs)
  have bad: "\<not> port_ok ev (base_port s + int off + 1)"
    using Cons.prems by simp
  have rest: "\<And>s'. base_port s' = base_port s \<Longrightarrow> max_retry_ports s' = max_retry_ports s \<Longrightarrow>
      fst (try_ports ev offs s') = Inl (RuntimeError (exhausted_message s))"
  proof -
    fix s' :: MeshNetwork
    assume b: "base_port s' = base_port s" and m: "max_retry_ports s' = max_retry_ports s"
    have "fst (try_ports ev offs s') = Inl (RuntimeError (exhausted_message s'))"
      using Cons.prems b by (intro Cons.IH) simp
    then show "fst (try_ports ev offs s') = Inl (RuntimeError (exhausted_message s))"
      using b m by (simp add: exhausted_message_def)
  qed
  show ?case
    using bad by (auto simp: Let_def port_ok_def rest split: sum.splits)
qed

lemma try_ports_committed:
  "fst (try_ports ev offs s) = Inr () \<Longrightarrow>
   \<exists>pre off post. offs = pre @ off # post \<and>
     (\<forall>j \<in> set pre. \<not> port_ok ev (base_port s + int j + 1)) \<and>
     port_ok ev (base_port s + int off + 1) \<and>
     port (snd (try_ports ev offs s)) = Some (base_port s + int off + 1) \<and>
     is_running (snd (try_ports ev offs s))"
proof (induction offs arbitrary: s)
  case Nil
  then show ?case by simp
next
  case (Cons off offs)
  show ?case
  proof (cases "port_ok ev (base_port s + int off + 1)")
    case True
    then have "port (snd (try_ports ev (off # offs) s)) = Some (base_port s + int off + 1) \<and>
               is_running (snd (try_ports ev (off # offs) s))"
      by (simp add: Let_def port_ok_def)
    with True have "off # offs = [] @ off # offs \<and>
        (\<forall>j \<in> set []. \<not> port_ok ev (base_port s + int j + 1)) \<and>
        port_ok ev (base_port s + int off + 1) \<and>
        port (snd (try_ports ev (off # offs) s)) = Some (base_port s + int off + 1) \<and>
        is_running (snd (try_ports ev (off # offs) s))"
      by simp
    then show ?thesis by blast
  next
    case False
    have "\<exists>s'. try_ports ev (off # offs) s = try_ports ev offs s' \<and> base_port s' = base_port s"
    proof (cases "dht_listen ev (base_port s + int off + 1)")
      case (Inl e)
      then have "try_ports ev (off # offs) s = try_ports ev offs (s\<lparr>is_running := False\<rparr>)"
        by (simp add: Let_def)
      then show ?thesis by force
    next
      case (Inr u)
      with False have "\<not> verify_port_active ev (base_port s + int off + 1)"
        by (simp add: port_ok_def)
      with Inr have "try_ports ev (off # offs) s =
          try_ports ev offs (s\<lparr>port := Some (base_port s + int off + 1), is_running := True,
                                 is_running := False\<rparr>)"
        by (simp add: Let_def)
      then show ?thesis by force
    qed
    then obtain s' where step: "try_ports ev (off # offs) s = try_ports ev offs s'"
      and b: "base_port s' = base_port s"
      by blast
    from Cons.prems step have "fst (try_ports ev offs s') = Inr ()" by simp
    from Cons.IH [OF this] obtain pre j' post where
      offs: "offs = pre @ j' # post" and
      pre: "\<forall>j \<in> set pre. \<not> port_ok ev (base_port s' + int j + 1)" and
      ok: "port_ok ev (base_port s' + int j' + 1)" and
      res: "port (snd (try_ports ev offs s')) = Some (base_port s' + int j' + 1)"
           "is_running (snd (try_ports ev offs s'))"
      by blast
    have "off # offs = (off # pre) @ j' # post \<and>
        (\<forall>j \<in> set (off # pre). \<not> port_ok ev (base_port s + int j + 1)) \<and>
        port_ok ev (base_port s + int j' + 1) \<and>
        port (snd (try_ports ev (off # offs) s)) = Some (base_port s + int j' + 1) \<and>
        is_running (snd (try_ports ev (off # offs) s))"
      using offs pre ok res False b step by simp
    then show ?thesis by blast
  qed
qed

lemma start_http_static:
  "base_port (snd (start_http_server ev s)) = base_port s \<and>
   max_retry_ports (snd (start_http_server ev s)) = max_retry_ports s"
  by (simp add: start_http_server_def Let_def split: sum.splits)

lemma start_after_http:
  "fst (start_http_server ev s) = Inr ok \<Longrightarrow>
   start ev s = try_ports ev [0..<max_retry_ports s] (snd (start_http_server ev s))"
  using start_http_static [of ev s]
  by (cases "start_http_server ev s") (simp add: start_def)

text \<open>
  C6: once the HTTP step of \<open>start\<close> has returned, if none of the candidates
  \<open>base_port + 1\<close> to \<open>base_port + N\<close> is good then \<open>start\<close> raises the error whose
  message names that range; and when \<open>start\<close> returns, \<open>port\<close> holds one port of the
  range, the first good candidate, and the mesh is running.
\<close>

theorem port_negotiation:
  assumes "fst (start_http_server ev s) = Inr ok"
  shows "((\<forall>off < max_retry_ports s. \<not> port_ok ev (base_port s + int off + 1)) \<longrightarrow>
            fst (start ev s) =
              Inl (RuntimeError (''Could not find available port in range '' @
                     show_int (base_port s + 1) @ ''-'' @
                     show_int (base_port s + int (max_retry_ports s))))) \<and>
         (fst (start ev s) = Inr () \<longrightarrow>
            (\<exists>off < max_retry_ports s.
               port (snd (start ev s)) = Some (base_port s + int off + 1) \<and>
               port_ok ev (base_port s + int off + 1) \<and>
               (\<forall>j < off. \<not> port_ok ev (base_port s + int j + 1)) \<and>
               is_running (snd (start ev s))))"
proof (intro conjI impI)
  let ?s1 = "snd (start_http_server ev s)"
  have st: "start ev s = try_ports ev [0..<max_retry_ports s] ?s1"
    using assms by (rule start_after_http)
  have b: "base_port ?s1 = base_port s" and m: "max_retry_ports ?s1 = max_retry_ports s"
    using start_http_static [of ev s] by simp_all
  {
    assume "\<forall>off < max_retry_ports s. \<not> port_ok ev (base_port s + int off + 1)"
    then have "\<forall>off \<in> set [0..<max_retry_ports s]. \<not> port_ok ev (base_port ?s1 + int off + 1)"
      using b by simp
    from try_ports_exhausted [OF this]
    show "fst (start ev s) =
              Inl (RuntimeError (''Could not find available port in range '' @
                     show_int (base_port s + 1) @ ''-'' @
                     show_int (base_port s + int (max_retry_ports s))))"
      using st b m by (simp add: exhausted_message_def)
  }
  {
    assume "fst (start ev s) = Inr ()"
    then have "fst (try_ports ev [0..<max_retry_ports s] ?s1) = Inr ()"
      using st by simp
    from try_ports_committed [OF this] obtain pre off post where
      offs: "[0..<max_retry_ports s] = pre @ off # post" and
      pre: "\<forall>j \<in> set pre. \<not> port_ok ev (base_port ?s1 + int j + 1)" and
      ok: "port_ok ev (base_port ?s1 + int off + 1)" and
      res: "port (snd (try_ports ev [0..<max_retry_ports s] ?s1)) = Some (base_port ?s1 + int off + 1)"
           "is_running (snd (try_ports ev [0..<max_retry_ports s] ?s1))"
      by blast
    have "off \<in> set [0..<max_retry_ports s]"
      unfolding offs by simp
    then have lt: "off < max_retry_ports s" by simp
    have len: "length pre = off"
    proof -
      have "[0..<max_retry_ports s] ! length pre = off"
        unfolding offs by simp
      moreover have "length pre < length [0..<max_retry_ports s]"
        unfolding offs by simp
      ultimately show ?thesis by simp
    qed
    have pre_eq: "pre = [0..<off]"
    proof -
      have "pre = take (length pre) [0..<max_retry_ports s]"
        unfolding offs by simp
      then show ?thesis
        using len lt by (simp add: take_upt)
    qed
    have before: "\<forall>j < off. \<not> port_ok ev (base_port s + int j + 1)"
      using pre b unfolding pre_eq by simp
    show "\<exists>off < max_retry_ports s.
               port (snd (start ev s)) = Some (base_port s + int off + 1) \<and>
               port_ok ev (base_port s + int off + 1) \<and>
               (\<forall>j < off. \<not> port_ok ev (base_port s + int j + 1)) \<and>
               is_running (snd (start ev s))"
      using lt ok res before b st by auto
  }
qed

theorem port_negotiation_witness:
  "fst (start no_port_env (init_mesh 12345 5)) =
     Inl (RuntimeError ''Could not find available port in range 12346-12350'') \<and>
   fst (start third_port_env (init_mesh 12345 5)) = Inr () \<and>
   port (snd (start third_port_env (init_mesh 12345 5))) = Some 12348"
proof -
  have h1: "fst (start_http_server no_port_env (init_mesh 12345 5)) = Inr False"
    by (simp add: start_http_server_def no_port_env_def init_mesh_def)
  have h2: "fst (start_http_server third_port_env (init_mesh 12345 5)) = Inr True"
    by (simp add: start_http_server_def third_port_env_def init_mesh_def)
  have ok: "fst (start third_port_env (init_mesh 12345 5)) = Inr ()"
    by (simp add: start_def start_http_server_def third_port_env_def init_mesh_def upt_rec
        Let_def)
  have ports: "\<And>off. off < 5 \<Longrightarrow> port_ok third_port_env (12345 + int off + 1) \<Longrightarrow>
      (\<forall>j<off. \<not> port_ok third_port_env (12345 + int j + 1)) \<Longrightarrow> off = 2"
  proof -
    fix off :: nat
    assume lt: "off < 5" and good: "port_ok third_port_env (12345 + int off + 1)"
      and first: "\<forall>j<off. \<not> port_ok third_port_env (12345 + int j + 1)"
    have p2: "port_ok third_port_env (12345 + int 2 + 1)"
      by (simp add: port_ok_def third_port_env_def)
    have "off \<noteq> 0" "off \<noteq> 1"
      using good by (auto simp: port_ok_def third_port_env_def split: if_splits)
    moreover have "\<not> 2 < off"
      using first p2 by blast
    ultimately show "off = 2" by simp
  qed
  show ?thesis
    using port_negotiation [OF h1] port_negotiation [OF h2] ok ports
    by (auto simp: no_port_env_def init_mesh_def port_ok_def show_int_def show_nat.simps)
qed

section \<open>Shutdown\<close>

text \<open>
  C9: with a runner set up whose cleanup raises, \<open>stop\<close> raises that error to its
  caller and the DHT node is never stopped; the only call made is the runner's cleanup.
\<close>

theorem stop_raises:
  "stop failing_cleanup_env started_mesh =
     (Inl CleanupError, started_mesh\<lparr>is_running := False\<rparr>, [RunnerCleanup])"
  by (simp add: stop_def failing_cleanup_env_def started_mesh_def init_mesh_def)

text \<open>
  The caller in src/mesh_chat.py collects what \<open>stop\<close> raises, and \<open>stop\<close> clears
  the running flag before anything can go wrong.
\<close>

lemma cleanup_swallows: "wipe_all ev = Inr () \<Longrightarrow> fst (cleanup ev s) = Inr ()"
  by (simp add: cleanup_def split: prod.splits)

lemma stop_not_running: "\<not> is_running (fst (snd (stop ev s)))"
  by (simp add: stop_def Let_def split: sum.splits)

section \<open>Compression round trip\<close>

text \<open>
  C8: on the normal path, where the compressor returns, the decompressor inverts it on
  that output and the strict decoding inverts the encoding of the text, decompressing
  the compressed text gives the text back; and for a payload the decompressor rejects,
  or whose decompressed bytes do not decode, \<open>_decompress_message\<close> returns the payload
  decoded with replacement. Its result is a string in every case: it never raises.
\<close>

theorem compression_round_trip:
  "(zstd_compress c (encode c mtext) = Inr z \<and> zstd_decompress c z = Inr (encode c mtext) \<and>
    decode c (encode c mtext) = Inr mtext \<longrightarrow>
      decompress_message c (compress_message c mtext) = mtext) \<and>
   (zstd_decompress c data = Inl e \<longrightarrow> decompress_message c data = decode_replace c data) \<and>
   (zstd_decompress c data = Inr raw \<and> decode c raw = Inl e' \<longrightarrow>
      decompress_message c data = decode_replace c data)"
  by (simp add: compress_message_def decompress_message_def)

theorem compression_round_trip_witness:
  "decompress_message toy_codec (compress_message toy_codec ''hello'') = ''hello'' \<and>
   decompress_message toy_codec [104, 200, 105] = ''h?i''"
proof -
  have packed: "zstd_compress toy_codec (encode toy_codec ''hello'') =
                  Inr (253 # encode toy_codec ''hello'')"
    by (simp add: toy_codec_def)
  have unpacked: "zstd_decompress toy_codec (253 # encode toy_codec ''hello'') =
                    Inr (encode toy_codec ''hello'')"
    by (simp add: toy_codec_def)
  have utf8: "decode toy_codec (encode toy_codec ''hello'') = Inr ''hello''"
    by code_simp
  have corrupt: "zstd_decompress toy_codec [104, 200, 105] = Inl ZstdError"
    by (simp add: toy_codec_def)
  have replaced: "decode_replace toy_codec [104, 200, 105] = ''h?i''"
    by code_simp
  show ?thesis
    using compression_round_trip [where c = toy_codec and mtext = "''hello''"
        and z = "253 # encode toy_codec ''hello''" and data = "[104, 200, 105]"
        and e = ZstdError]
      packed unpacked utf8 corrupt replaced
    by simp
qed

end
